theory Spec2Isabelle
  imports Main "HOL-Library.Sublist"
begin

section \<open>JavaScript strings and the built-ins the parser uses\<close>

text \<open>
  A JavaScript string is a sequence of UTF-16 code units; \<open>length\<close>, \<open>slice\<close>,
  \<open>includes\<close>, \<open>replace\<close> and the regular expressions of the parser (none has the
  \<open>u\<close> flag) all work on code units. Identifiers of members are kept as opaque
  strings of which only equality is used.
\<close>

type_synonym jsstring = "nat list"

definition ascii :: "string \<Rightarrow> jsstring" where
  "ascii s = map of_char s"

text \<open>\<open>s.includes(pat)\<close>: \<open>pat\<close> occurs in \<open>s\<close> at some position.\<close>

fun includesStr :: "jsstring \<Rightarrow> jsstring \<Rightarrow> bool" where
  "includesStr pat [] = (pat = [])"
| "includesStr pat (c # cs) = (prefix pat (c # cs) \<or> includesStr pat cs)"

text \<open>
  \<open>s.replace(pat, rep)\<close> with a string pattern: the first occurrence only. The
  replacement used by the parser has no \<open>$\<close> pattern.
\<close>

fun replaceFirst :: "jsstring \<Rightarrow> jsstring \<Rightarrow> jsstring \<Rightarrow> jsstring" where
  "replaceFirst pat rep [] = (if pat = [] then rep else [])"
| "replaceFirst pat rep (c # cs) =
     (if prefix pat (c # cs) then rep @ drop (length pat) (c # cs)
      else c # replaceFirst pat rep cs)"

text \<open>\<open>xs.join(sep)\<close>.\<close>

fun joinStr :: "jsstring \<Rightarrow> jsstring list \<Rightarrow> jsstring" where
  "joinStr sep [] = []"
| "joinStr sep [x] = x"
| "joinStr sep (x # y # ys) = x @ sep @ joinStr sep (y # ys)"

text \<open>
  \<open>s.toLowerCase()\<close> on the Basic Latin and Cyrillic blocks (\<open>A-Z\<close>, U+0400 to
  U+040F, U+0410 to U+042F); every other code unit is left as it is.
\<close>

definition lowerUnit :: "nat \<Rightarrow> nat" where
  "lowerUnit c =
     (if 65 \<le> c \<and> c \<le> 90 then c + 32
      else if 1040 \<le> c \<and> c \<le> 1071 then c + 32
      else if 1024 \<le> c \<and> c \<le> 1039 then c + 80
      else c)"

definition toLowerCase :: "jsstring \<Rightarrow> jsstring" where
  "toLowerCase s = map lowerUnit s"

text \<open>
  White space as \<open>\s\<close> and \<open>trim()\<close> see it: tab, line feed, vertical tab, form
  feed, carriage return, space, no-break space, U+1680, U+2000 to U+200A, the line and
  paragraph separators, U+202F, U+205F, U+3000 and the byte order mark.
\<close>

definition isSpace :: "nat \<Rightarrow> bool" where
  "isSpace c =
     ((9 \<le> c \<and> c \<le> 13) \<or> c = 32 \<or> c = 160 \<or> c = 5760 \<or> (8192 \<le> c \<and> c \<le> 8202)
      \<or> c = 8232 \<or> c = 8233 \<or> c = 8239 \<or> c = 8287 \<or> c = 12288 \<or> c = 65279)"

definition trim :: "jsstring \<Rightarrow> jsstring" where
  "trim s = rev (dropWhile isSpace (rev (dropWhile isSpace s)))"

text \<open>
  A \<open>Set<string>\<close> keeps its members in insertion order, and \<open>Array.from\<close> reads them in
  that order: a set is the list of its members, \<open>add\<close> appends a new member and leaves
  the set alone for an old one.
\<close>

definition setAdd :: "'a \<Rightarrow> 'a list \<Rightarrow> 'a list" where
  "setAdd x xs = (if x \<in> set xs then xs else xs @ [x])"

text \<open>\<open>xs.forEach(x => s.add(x))\<close>, and \<open>Array.from(new Set(xs))\<close>.\<close>

definition addAll :: "'a list \<Rightarrow> 'a list \<Rightarrow> 'a list" where
  "addAll xs s = fold setAdd xs s"

definition arrayFromSet :: "'a list \<Rightarrow> 'a list" where
  "arrayFromSet xs = addAll xs []"

section \<open>Configuration\<close>

text \<open>
  \<open>ParserConfig\<close>: an absent optional field is \<open>None\<close>. \<open>nextEnableWaitMs\<close> is the
  environment variable \<open>NEXT_ENABLE_WAIT_MS\<close> that \<open>collectAllContactIds\<close> reads.
\<close>

record config =
  maxPages :: "int option"
  outputFile :: "jsstring option"
  listFilters :: "jsstring list option"
  nextEnableWaitMs :: "int option"

section \<open>saveResults\<close>

record communityData =
  cname :: jsstring
  curl :: jsstring
  cidentifier :: jsstring

record parseResult =
  community :: communityData
  resultUserIds :: "string list"
  totalUsers :: nat
  timestamp :: jsstring

text \<open>
  What \<open>fs.writeFileSync\<close> stores: the JSON rendering of a result
  (\<open>JSON.stringify(result, null, 2)\<close>, kept as the value it renders), or the identifiers
  joined by line feeds (kept as the list that is joined).
\<close>

datatype fileContent = JsonText parseResult | IdLines "string list"

type_synonym filesystem = "jsstring \<rightharpoonup> fileContent"

definition writeFileSync :: "jsstring \<Rightarrow> fileContent \<Rightarrow> filesystem \<Rightarrow> filesystem" where
  "writeFileSync p c fs = fs(p \<mapsto> c)"

definition defaultOutputFile :: jsstring where
  "defaultOutputFile = ascii ''bothunter_results.json''"

text \<open>\<open>this.config.outputFile || 'bothunter_results.json'\<close>: the empty string is falsy.\<close>

definition outputFileOf :: "config \<Rightarrow> jsstring" where
  "outputFileOf cfg =
     (case outputFile cfg of
        None \<Rightarrow> defaultOutputFile
      | Some f \<Rightarrow> if f = [] then defaultOutputFile else f)"

definition idsFileOf :: "config \<Rightarrow> jsstring" where
  "idsFileOf cfg = replaceFirst (ascii ''.json'') (ascii ''_ids.txt'') (outputFileOf cfg)"

definition unknownCommunity :: communityData where
  "unknownCommunity = \<lparr>cname = ascii ''Unknown'', curl = [], cidentifier = []\<rparr>"

text \<open>
  \<open>saveResults\<close>: \<open>ids\<close> is what \<open>this.userIds\<close> holds, \<open>cd\<close> is \<open>this.communityData\<close>,
  \<open>stamp\<close> is \<open>new Date().toISOString()\<close>.
\<close>

definition saveResults ::
  "config \<Rightarrow> communityData option \<Rightarrow> string list \<Rightarrow> jsstring \<Rightarrow> filesystem \<Rightarrow> filesystem" where
  "saveResults cfg cd ids stamp fs =
     (let result = \<lparr>community = (case cd of None \<Rightarrow> unknownCommunity | Some c \<Rightarrow> c),
                    resultUserIds = ids, totalUsers = length ids, timestamp = stamp\<rparr>;
          fs1 = writeFileSync (outputFileOf cfg) (JsonText result) fs;
          fs2 = writeFileSync (idsFileOf cfg) (IdLines ids) fs1
      in fs2)"

section \<open>Target enumeration\<close>

text \<open>
  \<open>onclick.match(/lit'([^']+)close/)\<close> for a literal \<open>lit\<close> that ends with the opening
  quote and a literal \<open>close\<close> that starts with the closing quote: the capture of the
  leftmost match. At one position the greedy run of characters other than the quote
  (code unit 39) must be non-empty and followed by \<open>close\<close>; a shorter run is followed
  by a character that is not the quote, so backtracking finds nothing more.
\<close>

definition matchHere :: "jsstring \<Rightarrow> jsstring \<Rightarrow> jsstring \<Rightarrow> jsstring option" where
  "matchHere lit close s =
     (if prefix lit s then
        (let rest = drop (length lit) s;
             run = takeWhile (\<lambda>c. c \<noteq> 39) rest;
             after = dropWhile (\<lambda>c. c \<noteq> 39) rest
         in if run \<noteq> [] \<and> prefix close after then Some run else None)
      else None)"

fun matchFirst :: "jsstring \<Rightarrow> jsstring \<Rightarrow> jsstring \<Rightarrow> jsstring option" where
  "matchFirst lit close [] = matchHere lit close []"
| "matchFirst lit close (c # cs) =
     (case matchHere lit close (c # cs) of
        Some r \<Rightarrow> Some r
      | None \<Rightarrow> matchFirst lit close cs)"

text \<open>\<open>m?.[1] || ''\<close>.\<close>

definition captureOrEmpty :: "jsstring option \<Rightarrow> jsstring" where
  "captureOrEmpty m = (case m of None \<Rightarrow> [] | Some r \<Rightarrow> r)"

text \<open>\<open>text.split('\n')\<close>, and \<open>.map(s => s.trim()).filter(Boolean)\<close> after it.\<close>

fun splitOn :: "nat \<Rightarrow> jsstring \<Rightarrow> jsstring list" where
  "splitOn sep [] = [[]]"
| "splitOn sep (c # cs) =
     (if c = sep then [] # splitOn sep cs
      else (case splitOn sep cs of [] \<Rightarrow> [[c]] | l # ls \<Rightarrow> (c # l) # ls))"

definition textLines :: "jsstring \<Rightarrow> jsstring list" where
  "textLines t = filter (\<lambda>l. l \<noteq> []) (map trim (splitOn 10 t))"

text \<open>
  \<open>(lines.find(s => !/^#/.test(s)) || lines[0] || '').trim()\<close>: the first line that does
  not start with \<open>#\<close> (code unit 35), else the first line, else the empty string.
\<close>

definition pickName :: "jsstring list \<Rightarrow> jsstring" where
  "pickName ls =
     trim (case find (\<lambda>l. \<not> prefix [35] l) ls of
             Some l \<Rightarrow> l
           | None \<Rightarrow> (case ls of [] \<Rightarrow> [] | l # _ \<Rightarrow> l))"

text \<open>
  An anchor \<open>a[onclick*="change_group_with_channel"]\<close> as the page function of
  \<open>parseGroupsMode\<close> and \<open>parseNewSubsMode\<close> reads it: its \<open>onclick\<close> attribute, the
  text of its \<open>div div div div\<close> descendant when there is one, and its own text.
\<close>

record groupAnchor =
  onclickAttr :: "jsstring option"
  nestedText :: "jsstring option"
  anchorText :: "jsstring option"

record groupItem =
  gid :: jsstring
  gname :: jsstring

definition groupKey :: "groupAnchor \<Rightarrow> jsstring" where
  "groupKey a =
     captureOrEmpty
       (matchFirst (ascii ''change_group_with_channel('' @ [39]) [39]
          (case onclickAttr a of None \<Rightarrow> [] | Some t \<Rightarrow> t))"

definition groupName :: "groupAnchor \<Rightarrow> jsstring" where
  "groupName a =
     (let name1 = (case nestedText a of
                     None \<Rightarrow> []
                   | Some t \<Rightarrow> if t = [] then [] else pickName (textLines t))
      in if name1 = [] then
           (case anchorText a of
              None \<Rightarrow> name1
            | Some t \<Rightarrow> if t = [] then name1 else pickName (textLines t))
         else name1)"

text \<open>
  One round of \<open>anchors.forEach\<close>: \<open>seen\<close> is the \<open>Set<string>\<close> of keys, \<open>items\<close> the
  array built so far.
\<close>

definition groupStep :: "groupAnchor \<Rightarrow> jsstring list \<times> groupItem list \<Rightarrow> jsstring list \<times> groupItem list" where
  "groupStep a st =
     (let id = groupKey a in
      if id = [] \<or> id \<in> set (fst st) then st
      else (setAdd id (fst st), snd st @ [\<lparr>gid = id, gname = groupName a\<rparr>]))"

definition enumerateGroups :: "groupAnchor list \<Rightarrow> groupItem list" where
  "enumerateGroups anchors = snd (fold groupStep anchors ([], []))"

text \<open>
  An anchor \<open>a.link-dark-primary[onclick*="/contacts/lists/"]\<close> as the page function of
  \<open>parseListsMode\<close> reads it: its \<open>onclick\<close> attribute, the text of its \<open>h5\<close> when there
  is one, and its own text.
\<close>

record listAnchor =
  navAttr :: "jsstring option"
  h5Text :: "jsstring option"
  linkText :: "jsstring option"

record listItem =
  lname :: jsstring
  lhref :: jsstring

definition listHref :: "listAnchor \<Rightarrow> jsstring" where
  "listHref a =
     captureOrEmpty
       (matchFirst (ascii ''nav('' @ [39]) [39, 41]
          (case navAttr a of None \<Rightarrow> [] | Some t \<Rightarrow> t))"

definition listName :: "listAnchor \<Rightarrow> jsstring" where
  "listName a =
     (let name1 = (case h5Text a of
                     None \<Rightarrow> []
                   | Some t \<Rightarrow> if t = [] then [] else trim t)
      in if name1 = [] then
           (case linkText a of
              None \<Rightarrow> name1
            | Some t \<Rightarrow> if t = [] then name1
                        else (case textLines t of [] \<Rightarrow> [] | l # _ \<Rightarrow> l))
         else name1)"

definition listStep :: "listAnchor \<Rightarrow> listItem list \<Rightarrow> listItem list" where
  "listStep a items =
     (let href = listHref a; name = listName a in
      if name \<noteq> [] \<and> href \<noteq> [] then items @ [\<lparr>lname = name, lhref = href\<rparr>] else items)"

text \<open>
  \<open>seen\<close> in \<open>parseListsMode\<close> is the object literal \<open>{}\<close>, so \<open>seen[key]\<close> also finds
  what the object inherits from \<open>Object.prototype\<close>, and each of those values is a
  function or an object, hence truthy. \<open>ownKeys\<close> are the keys stored by
  \<open>seen[key] = true\<close>.
\<close>

definition objectPrototypeKeys :: "jsstring list" where
  "objectPrototypeKeys =
     map ascii [''constructor'', ''__defineGetter__'', ''__defineSetter__'',
       ''hasOwnProperty'', ''__lookupGetter__'', ''__lookupSetter__'', ''isPrototypeOf'',
       ''propertyIsEnumerable'', ''toString'', ''valueOf'', ''__proto__'',
       ''toLocaleString'']"

definition seenTruthy :: "jsstring list \<Rightarrow> jsstring \<Rightarrow> bool" where
  "seenTruthy ownKeys key = (key \<in> set ownKeys \<or> key \<in> set objectPrototypeKeys)"

fun dedupeLists :: "listItem list \<Rightarrow> jsstring list \<Rightarrow> listItem list" where
  "dedupeLists [] ownKeys = []"
| "dedupeLists (it # its) ownKeys =
     (let key = toLowerCase (lname it) in
      if seenTruthy ownKeys key then dedupeLists its ownKeys
      else it # dedupeLists its (key # ownKeys))"

definition enumerateLists :: "listAnchor list \<Rightarrow> listItem list" where
  "enumerateLists anchors = dedupeLists (fold listStep anchors []) []"

text \<open>
  The order the specification asks of an enumeration: every key once, at the place of
  its first occurrence.
\<close>

definition firstSeenOrder :: "'a list \<Rightarrow> 'a list" where
  "firstSeenOrder ks = map (\<lambda>i. ks ! i) (filter (\<lambda>i. ks ! i \<notin> set (take i ks)) [0..<length ks])"

section \<open>List filter of parseListsMode\<close>

definition defaultKeywords :: "jsstring list" where
  "defaultKeywords =
     [[1074, 32, 1088, 1072, 1073, 1086, 1090, 1077],
      [1086, 1090, 1082, 1072, 1079],
      [1086, 1076, 1086, 1073, 1088, 1077, 1085],
      [1082, 1083, 1080, 1082, 32, 1087, 1086, 32, 1086, 1092, 1092, 1077, 1088, 1091],
      [1082, 1083, 1080, 1082, 32, 1087, 1086, 32, 1086, 1092, 1092, 1077, 1088],
      [1082, 1083, 1080, 1082]]"

definition filtersOf :: "config \<Rightarrow> jsstring list" where
  "filtersOf cfg =
     (case listFilters cfg of
        None \<Rightarrow> defaultKeywords
      | Some fs \<Rightarrow> if length fs > 0 then map toLowerCase fs else defaultKeywords)"

definition matchesFilters :: "jsstring list \<Rightarrow> listItem \<Rightarrow> bool" where
  "matchesFilters filters l =
     (let low = toLowerCase (lname l) in list_ex (\<lambda>f. includesStr f low) filters)"

definition targetLists :: "config \<Rightarrow> listItem list \<Rightarrow> listItem list" where
  "targetLists cfg allLists =
     (let selected = filter (matchesFilters (filtersOf cfg)) allLists in
      if length selected = 0 then allLists else selected)"

section \<open>Output names\<close>

text \<open>\<open>String(n)\<close> for a natural number, and \<open>.padStart(2, '0')\<close>.\<close>

fun digits :: "nat \<Rightarrow> jsstring" where
  "digits n = (if n < 10 then [48 + n] else digits (n div 10) @ [48 + n mod 10])"

definition pad :: "nat \<Rightarrow> jsstring" where
  "pad n = replicate (2 - length (digits n)) 48 @ digits n"

text \<open>The fields of a \<open>Date\<close> in local time; \<open>getMonth\<close> counts from 0.\<close>

record jsdate =
  getDate :: nat
  getMonth :: nat
  getFullYear :: nat
  getHours :: nat
  getMinutes :: nat
  getSeconds :: nat

definition formatTimestampForFilename :: "jsdate \<Rightarrow> jsstring" where
  "formatTimestampForFilename d =
     pad (getDate d) @ pad (getMonth d + 1) @ digits (getFullYear d)
     @ pad (getHours d) @ pad (getMinutes d) @ pad (getSeconds d)"

text \<open>
  \<open>randomHash\<close>: \<open>r\<close> is the text \<open>Math.random().toString(36)\<close>, which starts with
  \<open>0.\<close> unless the number drawn is 0; \<open>slice(2, 2 + len)\<close> keeps what is there.
\<close>

definition randomHash :: "nat \<Rightarrow> jsstring \<Rightarrow> jsstring" where
  "randomHash len r = take len (drop 2 r)"

text \<open>
  \<open>slugify\<close>. \<open>nfkd\<close> is \<open>String.prototype.normalize('NFKD')\<close>, taken as it is. Then
  the combining marks U+0300 to U+036F go, then every code unit outside
  \<open>[a-zA-Z0-9\<close>, U+0410 to U+044F, \<open>_\<close>, \<open>-\<close>, white space\<open>]\<close>; the rest is trimmed,
  each run of white space becomes one \<open>_\<close>, and \<open>slice(0, max)\<close> cuts (\<open>maxLen\<close> is \<open>max\<close>).
\<close>

definition isCombiningMark :: "nat \<Rightarrow> bool" where
  "isCombiningMark c = (768 \<le> c \<and> c \<le> 879)"

definition isSlugUnit :: "nat \<Rightarrow> bool" where
  "isSlugUnit c =
     ((97 \<le> c \<and> c \<le> 122) \<or> (65 \<le> c \<and> c \<le> 90) \<or> (48 \<le> c \<and> c \<le> 57)
      \<or> (1040 \<le> c \<and> c \<le> 1071) \<or> (1072 \<le> c \<and> c \<le> 1103) \<or> c = 95 \<or> c = 45)"

function underscoreRuns :: "jsstring \<Rightarrow> jsstring" where
  "underscoreRuns [] = []"
| "underscoreRuns (c # cs) =
     (if isSpace c then 95 # underscoreRuns (dropWhile isSpace cs)
      else c # underscoreRuns cs)"
  by pat_completeness auto
termination
  by (relation "measure length") (auto simp: less_Suc_eq_le length_dropWhile_le)

definition itemWord :: jsstring where
  "itemWord = ascii ''item''"

definition slugify :: "(jsstring \<Rightarrow> jsstring) \<Rightarrow> jsstring \<Rightarrow> nat \<Rightarrow> jsstring" where
  "slugify nfkd v maxLen =
     (let v0 = (if v = [] then itemWord else v);
          s1 = nfkd v0;
          s2 = filter (\<lambda>c. \<not> isCombiningMark c) s1;
          s3 = filter (\<lambda>c. isSlugUnit c \<or> isSpace c) s2;
          s4 = trim s3;
          s5 = underscoreRuns s4;
          s6 = take maxLen s5
      in if s6 = [] then itemWord else s6)"

text \<open>
  \<open>writeIdsFile\<close>: the file name and what is written under it. \<open>d\<close> is \<open>new Date()\<close>,
  \<open>r\<close> the text of the random number. The directory that \<open>path.join\<close> puts in front
  is \<open>path.dirname\<close> of the configured output file, the same for every call of a run.
\<close>

definition writeIdsFile ::
  "(jsstring \<Rightarrow> jsstring) \<Rightarrow> jsdate \<Rightarrow> jsstring \<Rightarrow> string list \<Rightarrow> jsstring \<Rightarrow> jsstring \<times> fileContent" where
  "writeIdsFile nfkd d r ids label =
     (let ts = formatTimestampForFilename d;
          hash = randomHash 6 r;
          safeLabel = slugify nfkd label 40;
          fileName = ascii ''bothunter_ids_'' @ ts @ [95] @ safeLabel @ [95] @ hash @ ascii ''.txt''
      in (fileName, IdLines (arrayFromSet ids)))"

section \<open>The page, the clock and the parser's state\<close>

text \<open>
  What the parser can observe of the remote page at one moment: each field is the
  answer of one query the code makes.
  \<^item> \<open>paginationQuery\<close>: \<open>page.$('#followers-list-pagination, #followers-pagination')\<close>
    finds an element; \<open>None\<close> when the query throws.
  \<^item> \<open>foundIds\<close>: the identifiers the page function of \<open>extractUserIds\<close> collects
    before it removes duplicates; \<open>None\<close> when the evaluation throws.
  \<^item> \<open>enabledNext\<close>, \<open>anyNext\<close>: \<open>enabled.count()\<close> and \<open>any.count()\<close> of
    \<open>waitForNextPageButton\<close>.
  \<^item> \<open>showVisibleAfter\<close>: how many milliseconds from now the first button with the
    text of the show control becomes visible, \<open>None\<close> when it never does;
    \<open>showClickable\<close>: \<open>click()\<close> on it succeeds.
  \<^item> \<open>idleAfter\<close>: how many milliseconds from now the network is idle.
  \<^item> \<open>randomDraw\<close>: the number behind \<open>Math.random()\<close>; \<open>delay(min, max)\<close> reads
    \<open>Math.floor(Math.random() * (max - min + 1))\<close> as \<open>randomDraw mod (max - min + 1)\<close>.
  \<^item> \<open>simpleNextFound\<close>, \<open>simpleNextDisabled\<close>, \<open>simpleNextClickable\<close>: for the
    older \<open>collectAllContactIds\<close> of \<open>bothunter-vk-simple.ts\<close>, whether its selector
    of a next button that is not disabled finds an element, what the page function
    \<open>isDisabled\<close> says of that element, and whether \<open>click()\<close> on it succeeds.
\<close>

record snapshot =
  paginationQuery :: "bool option"
  foundIds :: "string list option"
  enabledNext :: nat
  anyNext :: nat
  showVisibleAfter :: "nat option"
  showClickable :: bool
  idleAfter :: nat
  randomDraw :: nat
  simpleNextFound :: bool
  simpleNextDisabled :: bool
  simpleNextClickable :: bool

text \<open>
  The remote page is a function of the number of clicks it has received and of the
  time. Queries take no time; the clock advances in the waits only.
\<close>

type_synonym browser = "nat \<Rightarrow> int \<Rightarrow> snapshot"

datatype error = NotInitialised | TypeError | EvaluateError | TimeoutError

datatype button = ShowButton | NextButton

datatype message =
    PageStart int
  | FoundCount nat
  | NoNextButton
  | LastPage
  | NotReadyPause
  | RetryNote int int

datatype event = Sleep int | Click button | Log message

text \<open>
  \<open>page\<close>: \<open>this.page\<close> is set; \<open>userIds\<close>: \<open>this.userIds\<close>; \<open>clock\<close>:
  \<open>Date.now()\<close>; \<open>clicks\<close>: the clicks made so far; \<open>trace\<close>: the waits, clicks and
  console lines so far, oldest first.
\<close>

record state =
  page :: bool
  userIds :: "string list"
  clock :: int
  clicks :: nat
  trace :: "event list"

definition observe :: "browser \<Rightarrow> state \<Rightarrow> snapshot" where
  "observe view s = view (clicks s) (clock s)"

definition waitForTimeout :: "int \<Rightarrow> state \<Rightarrow> state" where
  "waitForTimeout ms s = s\<lparr>clock := clock s + max 0 ms, trace := trace s @ [Sleep ms]\<rparr>"

text \<open>
  \<open>page.waitForLoadState('networkidle').catch(() => {})\<close>: returns when the network
  is idle or, the error swallowed, at the default timeout of 30 seconds.
\<close>

definition waitForLoadState :: "browser \<Rightarrow> state \<Rightarrow> state" where
  "waitForLoadState view s = s\<lparr>clock := clock s + min (int (idleAfter (observe view s))) 30000\<rparr>"

definition delay :: "browser \<Rightarrow> int \<Rightarrow> int \<Rightarrow> state \<Rightarrow> state" where
  "delay view lo hi s =
     (let ms = int (randomDraw (observe view s)) mod (hi - lo + 1) + lo in
      s\<lparr>clock := clock s + max 0 ms, trace := trace s @ [Sleep ms]\<rparr>)"

definition consoleLog :: "message \<Rightarrow> state \<Rightarrow> state" where
  "consoleLog m s = s\<lparr>trace := trace s @ [Log m]\<rparr>"

definition click :: "button \<Rightarrow> state \<Rightarrow> state" where
  "click b s = s\<lparr>clicks := Suc (clicks s), trace := trace s @ [Click b]\<rparr>"

definition extractUserIds :: "browser \<Rightarrow> state \<Rightarrow> error + string list" where
  "extractUserIds view s =
     (if \<not> page s then Inl NotInitialised
      else (case foundIds (observe view s) of
              None \<Rightarrow> Inl EvaluateError
            | Some raw \<Rightarrow> Inr (arrayFromSet raw)))"

section \<open>waitForAnyUsers\<close>

record waitOpts =
  minStableMs :: "int option"
  allowPaginationShortcut :: "bool option"
  requireMinCount :: "int option"

definition minStableOf :: "waitOpts option \<Rightarrow> int" where
  "minStableOf opts = (case opts of None \<Rightarrow> 2000 | Some opt \<Rightarrow> (case minStableMs opt of None \<Rightarrow> 2000 | Some v \<Rightarrow> v))"

definition shortcutOf :: "waitOpts option \<Rightarrow> bool" where
  "shortcutOf opts = (case opts of None \<Rightarrow> True | Some opt \<Rightarrow> (case allowPaginationShortcut opt of None \<Rightarrow> True | Some v \<Rightarrow> v))"

definition minCountOf :: "waitOpts option \<Rightarrow> int" where
  "minCountOf opts = (case opts of None \<Rightarrow> 1 | Some opt \<Rightarrow> (case requireMinCount opt of None \<Rightarrow> 1 | Some v \<Rightarrow> v))"

text \<open>The two variables of the loop.\<close>

record poll =
  lastCount :: int
  lastChangeTs :: int

text \<open>
  The body of \<open>try { ... } catch {}\<close> for one sample: whether it returns \<open>true\<close>, and
  the loop variables after it. A query that throws leaves both variables as they
  were; with the shortcut allowed and \<open>this.page\<close> unset the first query throws.
\<close>

definition pollOnce :: "browser \<Rightarrow> bool \<Rightarrow> int \<Rightarrow> int \<Rightarrow> poll \<Rightarrow> state \<Rightarrow> bool \<times> poll" where
  "pollOnce view shortcut minStable minCount p s =
     (if shortcut \<and> (\<not> page s \<or> paginationQuery (observe view s) = None) then (False, p)
      else if shortcut \<and> paginationQuery (observe view s) = Some True then (True, p)
      else (case extractUserIds view s of
              Inl e \<Rightarrow> (False, p)
            | Inr ids \<Rightarrow>
                (let count = int (length ids);
                     p' = (if count \<noteq> lastCount p
                           then \<lparr>lastCount = count, lastChangeTs = clock s\<rparr> else p)
                 in (count \<ge> minCount \<and> clock s - lastChangeTs p' \<ge> minStable, p'))))"

text \<open>
  \<open>while (Date.now() - start < maxWaitMs)\<close>. The wait of 500 ms after the
  \<open>try\<close> is outside it: with \<open>this.page\<close> unset it throws a \<open>TypeError\<close>.
\<close>

function waitLoop ::
  "browser \<Rightarrow> int \<Rightarrow> int \<Rightarrow> bool \<Rightarrow> int \<Rightarrow> int \<Rightarrow> poll \<Rightarrow> state \<Rightarrow> (error + bool) \<times> state" where
  "waitLoop view start maxWaitMs shortcut minStable minCount p s =
     (if clock s - start < maxWaitMs then
        (if fst (pollOnce view shortcut minStable minCount p s) then (Inr True, s)
         else if \<not> page s then (Inl TypeError, s)
         else waitLoop view start maxWaitMs shortcut minStable minCount
                (snd (pollOnce view shortcut minStable minCount p s)) (waitForTimeout 500 s))
      else (Inr False, s))"
  by pat_completeness auto
termination
  by (relation "measure (\<lambda>(view, start, maxWaitMs, shortcut, minStable, minCount, p, s).
        nat (start + maxWaitMs - clock s))")
     (auto simp: waitForTimeout_def)

definition waitForAnyUsers ::
  "browser \<Rightarrow> int \<Rightarrow> waitOpts option \<Rightarrow> state \<Rightarrow> (error + bool) \<times> state" where
  "waitForAnyUsers view maxWaitMs opts s =
     waitLoop view (clock s) maxWaitMs (shortcutOf opts) (minStableOf opts) (minCountOf opts)
       \<lparr>lastCount = - 1, lastChangeTs = clock s\<rparr> s"

section \<open>clickShowAndWaitWithRetries\<close>

text \<open>
  The trigger of one attempt: wait up to 10 seconds for the show button to be
  visible, click it, wait 150 ms and for the network. \<open>waitFor\<close> and \<open>click\<close> are not
  guarded, so a button that does not show or cannot be clicked ends the call with the
  error.
\<close>

definition clickShow :: "browser \<Rightarrow> state \<Rightarrow> error + state" where
  "clickShow view s =
     (if \<not> page s then Inl TypeError
      else (case showVisibleAfter (observe view s) of
              None \<Rightarrow> Inl TimeoutError
            | Some d \<Rightarrow>
                if int d > 10000 then Inl TimeoutError
                else (let s1 = s\<lparr>clock := clock s + int d\<rparr> in
                      if \<not> showClickable (observe view s1) then Inl TimeoutError
                      else Inr (waitForLoadState view (waitForTimeout 150 (click ShowButton s1))))))"

function retryLoop ::
  "browser \<Rightarrow> int \<Rightarrow> int \<Rightarrow> waitOpts option \<Rightarrow> int option \<Rightarrow> int \<Rightarrow> state \<Rightarrow> (error + bool) \<times> state" where
  "retryLoop view retries waitMs waitOpts postReadyDelayMs attempt s =
     (if attempt \<le> retries then
        (case clickShow view s of
           Inl e \<Rightarrow> (Inl e, s)
         | Inr s1 \<Rightarrow>
             (case waitForAnyUsers view waitMs waitOpts s1 of
                (Inl e, s2) \<Rightarrow> (Inl e, s2)
              | (Inr True, s2) \<Rightarrow>
                  (Inr True, waitForTimeout (case postReadyDelayMs of None \<Rightarrow> 500 | Some ms \<Rightarrow> ms) s2)
              | (Inr False, s2) \<Rightarrow>
                  retryLoop view retries waitMs waitOpts postReadyDelayMs (attempt + 1)
                    (consoleLog (RetryNote attempt retries) s2)))
      else (Inr False, s))"
  by pat_completeness auto
termination
  by (relation "measure (\<lambda>(view, retries, waitMs, waitOpts, postReadyDelayMs, attempt, s).
        nat (retries + 1 - attempt))") auto


section \<open>waitForNextPageButton and collectAllContactIds\<close>

text \<open>What \<open>enabled.first()\<close> denotes.\<close>

datatype locator = EnabledNextFirst

function nextLoop :: "browser \<Rightarrow> int \<Rightarrow> int \<Rightarrow> state \<Rightarrow> locator option \<times> state" where
  "nextLoop view start timeoutMs s =
     (if clock s - start < timeoutMs then
        (if enabledNext (observe view s) \<noteq> 0 then (Some EnabledNextFirst, s)
         else if anyNext (observe view s) \<noteq> 0 then nextLoop view start timeoutMs (waitForTimeout 500 s)
         else nextLoop view start timeoutMs (waitForTimeout 500 s))
      else (None, s))"
  by pat_completeness auto
termination
  by (relation "measure (\<lambda>(view, start, timeoutMs, s). nat (start + timeoutMs - clock s))")
     (auto simp: waitForTimeout_def)

definition waitForNextPageButton ::
  "browser \<Rightarrow> int \<Rightarrow> state \<Rightarrow> (error + locator option) \<times> state" where
  "waitForNextPageButton view timeoutMs s =
     (if \<not> page s then (Inl NotInitialised, s)
      else (case nextLoop view (clock s) timeoutMs s of (r, s') \<Rightarrow> (Inr r, s')))"

text \<open>\<open>this.config.maxPages || 10000\<close>: an absent field and 0 are falsy.\<close>

definition maxPagesOf :: "config \<Rightarrow> int" where
  "maxPagesOf cfg = (case maxPages cfg of None \<Rightarrow> 10000 | Some m \<Rightarrow> if m = 0 then 10000 else m)"

text \<open>\<open>parseInt(process.env.NEXT_ENABLE_WAIT_MS || '4000')\<close>.\<close>

definition nextEnableWaitOf :: "config \<Rightarrow> int" where
  "nextEnableWaitOf cfg = (case nextEnableWaitMs cfg of None \<Rightarrow> 4000 | Some ms \<Rightarrow> ms)"

text \<open>
  \<open>while (currentPage <= maxPages)\<close>. An error of \<open>extractUserIds\<close> is not caught and
  ends the call; the errors of scrolling, clicking and waiting for the network are
  swallowed. \<open>break\<close> and the end of the loop both reach
  \<open>return Array.from(this.userIds)\<close>.
\<close>

function collectLoop ::
  "config \<Rightarrow> browser \<Rightarrow> int \<Rightarrow> int \<Rightarrow> state \<Rightarrow> (error + string list) \<times> state" where
  "collectLoop cfg view maxPgs currentPage s =
     (if currentPage \<le> maxPgs then
        (let s1 = consoleLog (PageStart currentPage) s in
         case extractUserIds view s1 of
           Inl e \<Rightarrow> (Inl e, s1)
         | Inr pageIds \<Rightarrow>
             (let s2 = consoleLog (FoundCount (length pageIds)) s1;
                  s3 = s2\<lparr>userIds := addAll pageIds (userIds s2)\<rparr>
              in case waitForNextPageButton view (nextEnableWaitOf cfg) s3 of
                   (Inl e, s4) \<Rightarrow> (Inl e, s4)
                 | (Inr None, s4) \<Rightarrow>
                     (let s5 = consoleLog NoNextButton s4 in (Inr (userIds s5), s5))
                 | (Inr (Some nextLocator), s4) \<Rightarrow>
                     collectLoop cfg view maxPgs (currentPage + 1)
                       (delay view 6000 8000 (waitForLoadState view (click NextButton s4)))))
      else (Inr (userIds s), s))"
  by pat_completeness auto
termination
  by (relation "measure (\<lambda>(cfg, view, maxPgs, currentPage, s). nat (maxPgs + 1 - currentPage))") auto

definition collectAllContactIds ::
  "config \<Rightarrow> browser \<Rightarrow> state \<Rightarrow> (error + string list) \<times> state" where
  "collectAllContactIds cfg view s =
     (if \<not> page s then (Inl NotInitialised, s)
      else (let s0 = s\<lparr>userIds := []\<rparr>;
                s1 = waitForLoadState view s0
            in case waitForAnyUsers view 20000 None s1 of
                 (Inl e, s2) \<Rightarrow> (Inl e, s2)
               | (Inr firstReady, s2) \<Rightarrow>
                   collectLoop cfg view (maxPagesOf cfg) 1
                     (if \<not> firstReady then waitForTimeout 1500 (consoleLog NotReadyPause s2) else s2)))"

text \<open>
  The older \<open>collectAllContactIds\<close> of \<open>bothunter-vk-simple.ts\<close>: no wait before the
  first page, one query for the next button, and neither \<open>click()\<close> nor
  \<open>waitForLoadState\<close> guarded.
\<close>

function collectLoopSimple ::
  "config \<Rightarrow> browser \<Rightarrow> int \<Rightarrow> int \<Rightarrow> state \<Rightarrow> (error + string list) \<times> state" where
  "collectLoopSimple cfg view maxPgs currentPage s =
     (if currentPage \<le> maxPgs then
        (let s1 = consoleLog (PageStart currentPage) s in
         case extractUserIds view s1 of
           Inl e \<Rightarrow> (Inl e, s1)
         | Inr pageIds \<Rightarrow>
             (let s2 = consoleLog (FoundCount (length pageIds)) s1;
                  s3 = s2\<lparr>userIds := addAll pageIds (userIds s2)\<rparr>
              in if simpleNextFound (observe view s3) then
                   (if simpleNextDisabled (observe view s3) then
                      (let s4 = consoleLog LastPage s3 in (Inr (userIds s4), s4))
                    else if \<not> simpleNextClickable (observe view s3) then (Inl TimeoutError, s3)
                    else (let s4 = click NextButton s3 in
                          if int (idleAfter (observe view s4)) > 30000
                          then (Inl TimeoutError, s4\<lparr>clock := clock s4 + 30000\<rparr>)
                          else collectLoopSimple cfg view maxPgs (currentPage + 1)
                                 (delay view 1000 2000 (waitForLoadState view s4))))
                 else (let s4 = consoleLog NoNextButton s3 in (Inr (userIds s4), s4))))
      else (Inr (userIds s), s))"
  by pat_completeness auto
termination
  by (relation "measure (\<lambda>(cfg, view, maxPgs, currentPage, s). nat (maxPgs + 1 - currentPage))") auto

definition collectAllContactIdsSimple ::
  "config \<Rightarrow> browser \<Rightarrow> state \<Rightarrow> (error + string list) \<times> state" where
  "collectAllContactIdsSimple cfg view s =
     (if \<not> page s then (Inl NotInitialised, s)
      else collectLoopSimple cfg view (maxPagesOf cfg) 1 (s\<lparr>userIds := []\<rparr>))"

text \<open>How many rounds of the loop of \<open>collectAllContactIds\<close> a trace shows.\<close>

definition isPageStart :: "event \<Rightarrow> bool" where
  "isPageStart e = (case e of Log (PageStart n) \<Rightarrow> True | _ \<Rightarrow> False)"

definition pageRounds :: "state \<Rightarrow> nat" where
  "pageRounds s = length (filter isPageStart (trace s))"

section \<open>Notions used in the statements\<close>

text \<open>
  The state of \<open>collectAllContactIds\<close> after the two console lines and the merge of one
  page, and after the click on the next button with its two waits.
\<close>

definition afterExtract :: "int \<Rightarrow> string list \<Rightarrow> state \<Rightarrow> state" where
  "afterExtract cp b s =
     (consoleLog (FoundCount (length b)) (consoleLog (PageStart cp) s))\<lparr>userIds := addAll b (userIds s)\<rparr>"

definition advance :: "browser \<Rightarrow> state \<Rightarrow> state" where
  "advance view y = delay view 6000 8000 (waitForLoadState view (click NextButton y))"

definition advanceSimple :: "browser \<Rightarrow> state \<Rightarrow> state" where
  "advanceSimple view y = delay view 1000 2000 (waitForLoadState view (click NextButton y))"

text \<open>
  A sample of \<open>waitForAnyUsers\<close> throws: with the shortcut allowed the query for the
  pagination element throws, or it finds nothing and the extraction throws; with the
  shortcut off the extraction throws.
\<close>

definition probeThrows :: "bool \<Rightarrow> snapshot \<Rightarrow> bool" where
  "probeThrows shortcut snap =
     (if shortcut then paginationQuery snap = None \<or> (paginationQuery snap = Some False \<and> foundIds snap = None)
      else foundIds snap = None)"

text \<open>The console lines of \<open>clickShowAndWaitWithRetries\<close> in a trace: one for each failed readiness check.\<close>

definition isRetryNote :: "event \<Rightarrow> bool" where
  "isRetryNote e = (case e of Log (RetryNote a r) \<Rightarrow> True | _ \<Rightarrow> False)"

definition retryNotes :: "state \<Rightarrow> event list" where
  "retryNotes s = filter isRetryNote (trace s)"

section \<open>Scenarios\<close>

text \<open>A parser right after \<open>init()\<close>, a page that shows nothing, and a configuration with every field absent.\<close>

definition freshState :: state where
  "freshState = \<lparr>page = True, userIds = [], clock = 0, clicks = 0, trace = []\<rparr>"

definition quietPage :: snapshot where
  "quietPage = \<lparr>paginationQuery = Some False, foundIds = Some [], enabledNext = 0, anyNext = 0,
     showVisibleAfter = Some 0, showClickable = True, idleAfter = 0, randomDraw = 0,
     simpleNextFound = False, simpleNextDisabled = False, simpleNextClickable = True\<rparr>"

definition plainConfig :: config where
  "plainConfig = \<lparr>maxPages = None, outputFile = None, listFilters = None, nextEnableWaitMs = None\<rparr>"

text \<open>
  The probe sequence of the specification, one value for each tick of 500 ms (the last
  value stays), as the number of identifiers on the page; the stability window is 3
  ticks, the least count 1, the shortcut off.
\<close>

definition probeSequence :: "nat list" where
  "probeSequence = [0, 0, 3, 3, 3, 5, 5, 5, 5]"

definition idsOfCount :: "nat \<Rightarrow> string list" where
  "idsOfCount n = map (\<lambda>k. replicate (Suc k) CHR ''7'') [0..<n]"

definition probeView :: browser where
  "probeView c t = quietPage\<lparr>foundIds := Some (idsOfCount (probeSequence ! min 8 (nat (t div 500))))\<rparr>"

definition strictOpts :: waitOpts where
  "strictOpts = \<lparr>minStableMs = Some 1500, allowPaginationShortcut = Some False, requireMinCount = Some 1\<rparr>"

text \<open>A value that holds for three ticks, falls back to 0 for one tick and returns.\<close>

definition regressSequence :: "nat list" where
  "regressSequence = [3, 3, 3, 0, 3, 3, 3, 3]"

definition regressView :: browser where
  "regressView c t = quietPage\<lparr>foundIds := Some (idsOfCount (regressSequence ! min 7 (nat (t div 500))))\<rparr>"


text \<open>
  The two communities of the specification's scenario: A with the pages \<open>1, 2\<close> and
  \<open>2, 3\<close>, then, one further click away, B with the page \<open>9\<close>. \<open>betaStart\<close> is a
  state in which the traversal of B starts with the identifiers of A still in
  \<open>this.userIds\<close>.
\<close>

definition twoTargets :: browser where
  "twoTargets c t =
     (if c = 0 then quietPage\<lparr>paginationQuery := Some True, foundIds := Some [''1'', ''2''],
                     enabledNext := 1, anyNext := 1, simpleNextFound := True\<rparr>
      else if c = 1 then quietPage\<lparr>paginationQuery := Some True, foundIds := Some [''2'', ''3'']\<rparr>
      else quietPage\<lparr>paginationQuery := Some True, foundIds := Some [''9'']\<rparr>)"

definition betaStart :: state where
  "betaStart = \<lparr>page = True, userIds = [''1'', ''2'', ''3''], clock = 60000, clicks = 2, trace = []\<rparr>"

text \<open>
  A first page whose next button is not in the document at the first poll and is there,
  enabled, from 500 ms on; the second page has none.
\<close>

definition lateView :: browser where
  "lateView c t =
     (if c = 0 \<and> 500 \<le> t
      then quietPage\<lparr>paginationQuery := Some True, foundIds := Some [''1''], enabledNext := 1, anyNext := 1\<rparr>
      else quietPage\<lparr>paginationQuery := Some True, foundIds := Some [''1'']\<rparr>)"

text \<open>A page whose extraction throws during the first second and finds one identifier afterwards.\<close>

definition flakyView :: browser where
  "flakyView c t =
     (if t < 1000 then quietPage\<lparr>foundIds := None\<rparr> else quietPage\<lparr>foundIds := Some [''1'']\<rparr>)"

text \<open>
  A result view that never shows an identifier, and one that shows its pagination
  element after the second click on the show button.
\<close>

definition emptyView :: browser where
  "emptyView c t = quietPage"


section \<open>Facts about the string functions\<close>

lemma includesStr_sublist: "includesStr pat s \<longleftrightarrow> sublist pat s"
  by (induction s) (auto simp: sublist_Cons_right)

lemma includesStr_iff: "includesStr pat s \<longleftrightarrow> (\<exists>a b. s = a @ pat @ b)"
  by (simp add: includesStr_sublist sublist_def)

lemma replaceFirst_absent: "\<not> includesStr pat s \<Longrightarrow> replaceFirst pat rep s = s"
  by (induction s) auto

lemma replaceFirst_length:
  "includesStr pat s \<Longrightarrow> length (replaceFirst pat rep s) + length pat = length s + length rep"
proof (induction s)
  case Nil
  then show ?case by simp
next
  case (Cons c cs)
  show ?case
  proof (cases "prefix pat (c # cs)")
    case True
    then have "length pat \<le> length (c # cs)" by (rule prefix_length_le)
    with True show ?thesis by simp
  next
    case False
    with Cons show ?thesis by simp
  qed
qed

lemma length_json: "length (ascii ''.json'') = 5"
  by (simp add: ascii_def)

lemma length_ids_txt: "length (ascii ''_ids.txt'') = 8"
  by (simp add: ascii_def)

section \<open>saveResults: the two paths\<close>

text \<open>
  C10. When the configured output file does not contain \<open>.json\<close>, the path of the
  identifier file equals the path of the JSON file, and after \<open>saveResults\<close> that path
  holds the identifier lines, not the JSON written just before; the two paths differ
  exactly when the output file contains \<open>.json\<close>.
\<close>

theorem saveResults_paths:
  "(\<not> includesStr (ascii ''.json'') (outputFileOf cfg) \<longrightarrow>
      idsFileOf cfg = outputFileOf cfg
      \<and> saveResults cfg cd ids stamp fs (outputFileOf cfg) = Some (IdLines ids)
      \<and> dom (saveResults cfg cd ids stamp fs) = insert (outputFileOf cfg) (dom fs))
   \<and> (idsFileOf cfg \<noteq> outputFileOf cfg \<longleftrightarrow> includesStr (ascii ''.json'') (outputFileOf cfg))"
proof -
  have absent: "idsFileOf cfg = outputFileOf cfg"
    if "\<not> includesStr (ascii ''.json'') (outputFileOf cfg)"
    using that by (simp add: idsFileOf_def replaceFirst_absent)
  have present: "idsFileOf cfg \<noteq> outputFileOf cfg"
    if h: "includesStr (ascii ''.json'') (outputFileOf cfg)"
  proof
    assume eq: "idsFileOf cfg = outputFileOf cfg"
    from replaceFirst_length [OF h, of "ascii ''_ids.txt''"]
    have "length (idsFileOf cfg) + 5 = length (outputFileOf cfg) + 8"
      by (simp add: idsFileOf_def length_json length_ids_txt)
    with eq show False by simp
  qed
  show ?thesis
    using absent present
    by (auto simp: saveResults_def writeFileSync_def Let_def)
qed

theorem saveResults_paths_witness:
  "\<not> includesStr (ascii ''.json'') (outputFileOf (plainConfig\<lparr>outputFile := Some (ascii ''out.txt'')\<rparr>))
   \<and> idsFileOf (plainConfig\<lparr>outputFile := Some (ascii ''out.txt'')\<rparr>) = ascii ''out.txt''
   \<and> saveResults (plainConfig\<lparr>outputFile := Some (ascii ''out.txt'')\<rparr>) None [''7''] [] Map.empty
        (ascii ''out.txt'') = Some (IdLines [''7''])
   \<and> idsFileOf plainConfig \<noteq> outputFileOf plainConfig"
proof -
  have o: "outputFileOf (plainConfig\<lparr>outputFile := Some (ascii ''out.txt'')\<rparr>) = ascii ''out.txt''"
    by (simp add: outputFileOf_def ascii_def)
  have n: "\<not> includesStr (ascii ''.json'') (ascii ''out.txt'')"
    by (simp add: ascii_def)
  have y: "includesStr (ascii ''.json'') (outputFileOf plainConfig)"
    by (simp add: outputFileOf_def plainConfig_def defaultOutputFile_def ascii_def)
  from saveResults_paths [of "plainConfig\<lparr>outputFile := Some (ascii ''out.txt'')\<rparr>" None "[''7'']" "[]" Map.empty]
    saveResults_paths [of plainConfig None "[]" "[]" Map.empty] o n y
  show ?thesis by simp
qed

section \<open>Facts about the loops\<close>

text \<open>
  The recursive equations of the loops are applied one round at a time, by the lemmas
  below, and not by the simplifier.
\<close>

declare waitLoop.simps [simp del] nextLoop.simps [simp del] retryLoop.simps [simp del]
  collectLoop.simps [simp del] collectLoopSimple.simps [simp del]

lemma waitForTimeout_fields [simp]:
  "page (waitForTimeout ms s) = page s"
  "userIds (waitForTimeout ms s) = userIds s"
  "clicks (waitForTimeout ms s) = clicks s"
  "clock (waitForTimeout ms s) = clock s + max 0 ms"
  "trace (waitForTimeout ms s) = trace s @ [Sleep ms]"
  by (simp_all add: waitForTimeout_def)

lemma waitForLoadState_fields [simp]:
  "page (waitForLoadState view s) = page s"
  "userIds (waitForLoadState view s) = userIds s"
  "clicks (waitForLoadState view s) = clicks s"
  "trace (waitForLoadState view s) = trace s"
  by (simp_all add: waitForLoadState_def)

lemma waitForLoadState_clock: "clock s \<le> clock (waitForLoadState view s)"
  by (simp add: waitForLoadState_def)

lemma delay_fields [simp]:
  "page (delay view lo hi s) = page s"
  "userIds (delay view lo hi s) = userIds s"
  "clicks (delay view lo hi s) = clicks s"
  by (simp_all add: delay_def Let_def)

lemma delay_clock: "clock s \<le> clock (delay view lo hi s)"
  by (simp add: delay_def Let_def)

lemma consoleLog_fields [simp]:
  "page (consoleLog m s) = page s"
  "userIds (consoleLog m s) = userIds s"
  "clicks (consoleLog m s) = clicks s"
  "clock (consoleLog m s) = clock s"
  "trace (consoleLog m s) = trace s @ [Log m]"
  by (simp_all add: consoleLog_def)

lemma click_fields [simp]:
  "page (click b s) = page s"
  "userIds (click b s) = userIds s"
  "clicks (click b s) = Suc (clicks s)"
  "clock (click b s) = clock s"
  "trace (click b s) = trace s @ [Click b]"
  by (simp_all add: click_def)

lemma pageRounds_simps [simp]:
  "pageRounds (waitForTimeout ms s) = pageRounds s"
  "pageRounds (waitForLoadState view s) = pageRounds s"
  "pageRounds (delay view lo hi s) = pageRounds s"
  "pageRounds (click b s) = pageRounds s"
  "pageRounds (consoleLog (PageStart n) s) = Suc (pageRounds s)"
  "pageRounds (consoleLog (FoundCount k) s) = pageRounds s"
  "pageRounds (consoleLog NoNextButton s) = pageRounds s"
  "pageRounds (consoleLog LastPage s) = pageRounds s"
  "pageRounds (consoleLog NotReadyPause s) = pageRounds s"
  "pageRounds (consoleLog (RetryNote a r) s) = pageRounds s"
  "pageRounds (s\<lparr>userIds := u\<rparr>) = pageRounds s"
  "pageRounds (s\<lparr>clock := t\<rparr>) = pageRounds s"
  by (simp_all add: pageRounds_def isPageStart_def delay_def Let_def)

lemma waitLoop_frame:
  "page (snd (waitLoop view start mw sc ms mc p s)) = page s
   \<and> userIds (snd (waitLoop view start mw sc ms mc p s)) = userIds s
   \<and> clicks (snd (waitLoop view start mw sc ms mc p s)) = clicks s
   \<and> clock s \<le> clock (snd (waitLoop view start mw sc ms mc p s))
   \<and> pageRounds (snd (waitLoop view start mw sc ms mc p s)) = pageRounds s"
proof (induction view start mw sc ms mc p s rule: waitLoop.induct)
  case (1 view start mw sc ms mc p s)
  show ?case
  proof (cases "clock s - start < mw \<and> \<not> fst (pollOnce view sc ms mc p s) \<and> page s")
    case True
    with 1 show ?thesis by (subst (1 2 3 4 5) waitLoop.simps) simp
  next
    case False
    then show ?thesis by (subst (1 2 3 4 5) waitLoop.simps) auto
  qed
qed

lemma waitLoop_no_error:
  "page s \<Longrightarrow> \<exists>b. fst (waitLoop view start mw sc ms mc p s) = Inr b"
proof (induction view start mw sc ms mc p s rule: waitLoop.induct)
  case (1 view start mw sc ms mc p s)
  show ?case
  proof (cases "clock s - start < mw \<and> \<not> fst (pollOnce view sc ms mc p s)")
    case True
    with 1 show ?thesis by (subst waitLoop.simps) simp
  next
    case False
    then show ?thesis by (subst waitLoop.simps) auto
  qed
qed

lemma nextLoop_frame:
  "page (snd (nextLoop view start tm s)) = page s
   \<and> userIds (snd (nextLoop view start tm s)) = userIds s
   \<and> clicks (snd (nextLoop view start tm s)) = clicks s
   \<and> clock s \<le> clock (snd (nextLoop view start tm s))
   \<and> pageRounds (snd (nextLoop view start tm s)) = pageRounds s"
proof (induction view start tm s rule: nextLoop.induct)
  case (1 view start tm s)
  show ?case
  proof (cases "clock s - start < tm \<and> enabledNext (observe view s) = 0")
    case True
    with 1 show ?thesis by (subst (1 2 3 4 5) nextLoop.simps) (cases "anyNext (observe view s) = 0"; simp)
  next
    case False
    then show ?thesis by (subst (1 2 3 4 5) nextLoop.simps) auto
  qed
qed

lemma waitForNextPageButton_frame:
  assumes "waitForNextPageButton view tm s = (r, s')"
  shows "page s' = page s" "userIds s' = userIds s" "clicks s' = clicks s"
    "clock s \<le> clock s'" "pageRounds s' = pageRounds s"
  using assms nextLoop_frame [of view "clock s" tm s]
  by (auto simp: waitForNextPageButton_def split: if_splits prod.splits)

lemma waitForAnyUsers_frame:
  assumes "waitForAnyUsers view mw opts s = (r, s')"
  shows "page s' = page s" "userIds s' = userIds s" "clicks s' = clicks s"
    "clock s \<le> clock s'" "pageRounds s' = pageRounds s"
  using assms waitLoop_frame [of view "clock s" mw "shortcutOf opts" "minStableOf opts" "minCountOf opts"
      "\<lparr>lastCount = - 1, lastChangeTs = clock s\<rparr>" s]
  by (auto simp: waitForAnyUsers_def)

lemma collectLoop_stop: "\<not> cp \<le> m \<Longrightarrow> collectLoop cfg view m cp s = (Inr (userIds s), s)"
  by (subst collectLoop.simps) simp

lemma collectLoop_throw:
  "cp \<le> m \<Longrightarrow> extractUserIds view (consoleLog (PageStart cp) s) = Inl e \<Longrightarrow>
   collectLoop cfg view m cp s = (Inl e, consoleLog (PageStart cp) s)"
  by (subst collectLoop.simps) (simp add: Let_def)

lemma collectLoop_step:
  "cp \<le> m \<Longrightarrow> extractUserIds view (consoleLog (PageStart cp) s) = Inr b \<Longrightarrow>
   waitForNextPageButton view (nextEnableWaitOf cfg) (afterExtract cp b s) = (r, y) \<Longrightarrow>
   collectLoop cfg view m cp s =
     (case r of
        Inl e \<Rightarrow> (Inl e, y)
      | Inr None \<Rightarrow> (Inr (userIds y), consoleLog NoNextButton y)
      | Inr (Some l) \<Rightarrow> collectLoop cfg view m (cp + 1) (advance view y))"
  by (subst collectLoop.simps)
     (simp add: Let_def afterExtract_def advance_def split: sum.splits option.splits)

lemma afterExtract_fields [simp]:
  "page (afterExtract cp b s) = page s"
  "userIds (afterExtract cp b s) = addAll b (userIds s)"
  "clicks (afterExtract cp b s) = clicks s"
  "clock (afterExtract cp b s) = clock s"
  "pageRounds (afterExtract cp b s) = Suc (pageRounds s)"
  by (simp_all add: afterExtract_def)

lemma advance_fields [simp]:
  "page (advance view s) = page s"
  "userIds (advance view s) = userIds s"
  "clicks (advance view s) = Suc (clicks s)"
  "pageRounds (advance view s) = pageRounds s"
  by (simp_all add: advance_def)

lemma advance_clock: "clock s \<le> clock (advance view s)"
  unfolding advance_def
  using delay_clock [of "waitForLoadState view (click NextButton s)" view 6000 8000]
    waitForLoadState_clock [of "click NextButton s" view]
  by simp


lemma set_setAdd [simp]: "set (setAdd x xs) = insert x (set xs)"
  by (auto simp: setAdd_def)

lemma distinct_setAdd: "distinct xs \<Longrightarrow> distinct (setAdd x xs)"
  by (simp add: setAdd_def)

lemma set_addAll [simp]: "set (addAll xs s) = set xs \<union> set s"
  unfolding addAll_def by (induction xs arbitrary: s) auto

lemma distinct_addAll: "distinct s \<Longrightarrow> distinct (addAll xs s)"
  unfolding addAll_def by (induction xs arbitrary: s) (auto simp: distinct_setAdd)

lemma set_arrayFromSet [simp]: "set (arrayFromSet xs) = set xs"
  by (simp add: arrayFromSet_def)

lemma distinct_arrayFromSet: "distinct (arrayFromSet xs)"
  by (simp add: arrayFromSet_def distinct_addAll)

lemma extractUserIds_Inr:
  "extractUserIds view s = Inr b \<Longrightarrow>
   page s \<and> (\<exists>raw. foundIds (view (clicks s) (clock s)) = Some raw \<and> set b = set raw)"
  by (auto simp: extractUserIds_def observe_def split: if_splits option.splits)

lemma extractUserIds_consoleLog [simp]:
  "extractUserIds view (consoleLog m s) = extractUserIds view s"
  by (simp add: extractUserIds_def observe_def)

lemma collectLoop_provenance:
  assumes "\<forall>i\<in>set (userIds s). Q i"
    and "\<forall>c t raw i. clicks s \<le> c \<and> clock s \<le> t \<and> foundIds (view c t) = Some raw \<and> i \<in> set raw \<longrightarrow> Q i"
    and "fst (collectLoop cfg view m cp s) = Inr ids"
  shows "\<forall>i\<in>set ids. Q i"
  using assms
proof (induction "nat (m + 1 - cp)" arbitrary: cp s)
  case 0
  then have "\<not> cp \<le> m" by simp
  with 0 show ?case by (simp add: collectLoop_stop)
next
  case (Suc n)
  then have le: "cp \<le> m" and n: "n = nat (m + 1 - (cp + 1))" by simp_all
  show ?case
  proof (cases "extractUserIds view (consoleLog (PageStart cp) s)")
    case (Inl e)
    with le Suc.prems(3) show ?thesis by (simp add: collectLoop_throw)
  next
    case (Inr b)
    obtain r y where w: "waitForNextPageButton view (nextEnableWaitOf cfg) (afterExtract cp b s) = (r, y)"
      by (cases "waitForNextPageButton view (nextEnableWaitOf cfg) (afterExtract cp b s)")
    note fr = waitForNextPageButton_frame [OF w]
    from Inr obtain raw where raw: "foundIds (view (clicks s) (clock s)) = Some raw" "set b = set raw"
      using extractUserIds_Inr [of view s b] by auto
    have Qb: "\<forall>i\<in>set b. Q i"
      using Suc.prems(2) raw by blast
    have Qy: "\<forall>i\<in>set (userIds y). Q i"
      using fr(2) Qb Suc.prems(1) by auto
    note step = collectLoop_step [OF le Inr w]
    show ?thesis
    proof (cases r)
      case (Inl e)
      with step Suc.prems(3) show ?thesis by simp
    next
      case r: (Inr res)
      show ?thesis
      proof (cases res)
        case None
        with step r Suc.prems(3) Qy show ?thesis by auto
      next
        case (Some l)
        have a1: "\<forall>i\<in>set (userIds (advance view y)). Q i"
          using Qy by simp
        have "clicks s \<le> clicks (advance view y)" "clock s \<le> clock (advance view y)"
          using fr(3) fr(4) advance_clock [of y view] by simp_all
        then have a2: "\<forall>c t raw i. clicks (advance view y) \<le> c \<and> clock (advance view y) \<le> t
            \<and> foundIds (view c t) = Some raw \<and> i \<in> set raw \<longrightarrow> Q i"
          using Suc.prems(2) by (meson order_trans)
        have a3: "fst (collectLoop cfg view m (cp + 1) (advance view y)) = Inr ids"
          using step r Some Suc.prems(3) by simp
        from Suc.hyps(1) [OF n a1 a2 a3] show ?thesis .
      qed
    qed
  qed
qed


lemma nextLoop_enabled_now:
  "clock s - start < tm \<Longrightarrow> enabledNext (observe view s) \<noteq> 0 \<Longrightarrow>
   nextLoop view start tm s = (Some EnabledNextFirst, s)"
  by (subst nextLoop.simps) simp

lemma nextLoop_wait:
  "clock s - start < tm \<Longrightarrow> enabledNext (observe view s) = 0 \<Longrightarrow>
   nextLoop view start tm s = nextLoop view start tm (waitForTimeout 500 s)"
  by (subst nextLoop.simps) simp

lemma nextLoop_timeout: "\<not> clock s - start < tm \<Longrightarrow> nextLoop view start tm s = (None, s)"
  by (subst nextLoop.simps) simp

lemma nextLoop_char:
  "fst (nextLoop view start tm s) = Some EnabledNextFirst \<longleftrightarrow>
   (\<exists>k. clock s + 500 * int k - start < tm \<and> enabledNext (view (clicks s) (clock s + 500 * int k)) \<noteq> 0)"
proof (induction view start tm s rule: nextLoop.induct)
  case (1 view start tm s)
  show ?case
  proof (cases "clock s - start < tm")
    case False
    then have "\<not> clock s + 500 * int k - start < tm" for k by simp
    with False show ?thesis by (simp add: nextLoop_timeout)
  next
    case lt: True
    show ?thesis
    proof (cases "enabledNext (observe view s) = 0")
      case False
      then have "clock s + 500 * int 0 - start < tm \<and> enabledNext (view (clicks s) (clock s + 500 * int 0)) \<noteq> 0"
        using lt by (simp add: observe_def)
      then have "\<exists>k. clock s + 500 * int k - start < tm \<and> enabledNext (view (clicks s) (clock s + 500 * int k)) \<noteq> 0"
        by blast
      with lt False show ?thesis by (simp add: nextLoop_enabled_now)
    next
      case zero: True
      have ih: "fst (nextLoop view start tm (waitForTimeout 500 s)) = Some EnabledNextFirst \<longleftrightarrow>
        (\<exists>k. clock s + 500 + 500 * int k - start < tm
           \<and> enabledNext (view (clicks s) (clock s + 500 + 500 * int k)) \<noteq> 0)"
      proof (cases "anyNext (observe view s) = 0")
        case True
        with 1(2) [OF lt] zero show ?thesis by simp
      next
        case False
        with 1(1) [OF lt] zero show ?thesis by simp
      qed
      have "(\<exists>k. clock s + 500 + 500 * int k - start < tm
           \<and> enabledNext (view (clicks s) (clock s + 500 + 500 * int k)) \<noteq> 0)
        \<longleftrightarrow> (\<exists>k. clock s + 500 * int k - start < tm
           \<and> enabledNext (view (clicks s) (clock s + 500 * int k)) \<noteq> 0)" (is "?L \<longleftrightarrow> ?R")
      proof
        assume ?L
        then obtain k where "clock s + 500 + 500 * int k - start < tm"
          "enabledNext (view (clicks s) (clock s + 500 + 500 * int k)) \<noteq> 0" by blast
        then have "clock s + 500 * int (Suc k) - start < tm
           \<and> enabledNext (view (clicks s) (clock s + 500 * int (Suc k))) \<noteq> 0"
          by (simp add: algebra_simps)
        then show ?R by blast
      next
        assume ?R
        then obtain k where k: "clock s + 500 * int k - start < tm"
          "enabledNext (view (clicks s) (clock s + 500 * int k)) \<noteq> 0" by blast
        have "k \<noteq> 0" using k(2) zero by (auto simp: observe_def intro: ccontr)
        then obtain j where "k = Suc j" by (cases k) auto
        with k have "clock s + 500 + 500 * int j - start < tm
          \<and> enabledNext (view (clicks s) (clock s + 500 + 500 * int j)) \<noteq> 0"
          by (simp add: algebra_simps)
        then show ?L by blast
      qed
      with ih lt zero show ?thesis by (simp add: nextLoop_wait)
    qed
  qed
qed

lemma nextLoop_result: "fst (nextLoop view start tm s) = None \<or> fst (nextLoop view start tm s) = Some EnabledNextFirst"
  by (cases "fst (nextLoop view start tm s)") (auto intro: locator.exhaust)

lemma nextLoop_anyNext_irrelevant:
  assumes "\<forall>c t. view' c t = (view c t)\<lparr>anyNext := a c t\<rparr>"
  shows "nextLoop view' start tm s = nextLoop view start tm s"
  using assms
proof (induction view start tm s rule: nextLoop.induct)
  case (1 view start tm s)
  have en: "enabledNext (observe view' s) = enabledNext (observe view s)"
    by (simp add: observe_def 1(3))
  show ?case
  proof (cases "clock s - start < tm")
    case False
    then show ?thesis by (simp add: nextLoop_timeout)
  next
    case lt: True
    show ?thesis
    proof (cases "enabledNext (observe view s) = 0")
      case False
      with lt en show ?thesis by (simp add: nextLoop_enabled_now)
    next
      case zero: True
      have "nextLoop view' start tm (waitForTimeout 500 s) = nextLoop view start tm (waitForTimeout 500 s)"
      proof (cases "anyNext (observe view s) = 0")
        case True
        with 1(2) [OF lt _ _ 1(3)] zero show ?thesis by simp
      next
        case False
        with 1(1) [OF lt _ _ 1(3)] zero show ?thesis by simp
      qed
      with lt zero en show ?thesis by (simp add: nextLoop_wait)
    qed
  qed
qed

lemma waitLoop_ready:
  "clock s - start < mw \<Longrightarrow> fst (pollOnce view sc ms mc p s) \<Longrightarrow>
   waitLoop view start mw sc ms mc p s = (Inr True, s)"
  by (subst waitLoop.simps) simp

lemma waitLoop_pending:
  "clock s - start < mw \<Longrightarrow> \<not> fst (pollOnce view sc ms mc p s) \<Longrightarrow> page s \<Longrightarrow>
   waitLoop view start mw sc ms mc p s =
   waitLoop view start mw sc ms mc (snd (pollOnce view sc ms mc p s)) (waitForTimeout 500 s)"
  by (subst waitLoop.simps) simp

lemma waitLoop_timeout:
  "\<not> clock s - start < mw \<Longrightarrow> waitLoop view start mw sc ms mc p s = (Inr False, s)"
  by (subst waitLoop.simps) simp

lemma waitLoop_unset:
  "clock s - start < mw \<Longrightarrow> \<not> fst (pollOnce view sc ms mc p s) \<Longrightarrow> \<not> page s \<Longrightarrow>
   waitLoop view start mw sc ms mc p s = (Inl TypeError, s)"
  by (subst waitLoop.simps) simp

lemma pollOnce_throw:
  "page s \<Longrightarrow> probeThrows sc (observe view s) \<Longrightarrow> pollOnce view sc ms mc p s = (False, p)"
  by (auto simp: pollOnce_def probeThrows_def extractUserIds_def split: if_splits)

lemma waitLoop_skip_tick:
  "page s \<Longrightarrow> clock s - start < mw \<Longrightarrow> probeThrows sc (observe view s) \<Longrightarrow>
   waitLoop view start mw sc ms mc p s = waitLoop view start mw sc ms mc p (waitForTimeout 500 s)"
  by (simp add: waitLoop_pending pollOnce_throw)

lemma waitLoop_all_throw:
  "page s \<Longrightarrow> \<forall>c t. probeThrows sc (view c t) \<Longrightarrow>
   fst (waitLoop view start mw sc ms mc p s) = Inr False
   \<and> start + mw \<le> clock (snd (waitLoop view start mw sc ms mc p s))"
proof (induction view start mw sc ms mc p s rule: waitLoop.induct)
  case (1 view start mw sc ms mc p s)
  show ?case
  proof (cases "clock s - start < mw")
    case False
    then show ?thesis by (simp add: waitLoop_timeout)
  next
    case True
    have th: "probeThrows sc (observe view s)" using 1(3) by (simp add: observe_def)
    have po: "pollOnce view sc ms mc p s = (False, p)" using pollOnce_throw [OF 1(2) th] .
    from 1(1) [OF True] po 1(2) 1(3)
    have "fst (waitLoop view start mw sc ms mc p (waitForTimeout 500 s)) = Inr False
      \<and> start + mw \<le> clock (snd (waitLoop view start mw sc ms mc p (waitForTimeout 500 s)))"
      by simp
    then show ?thesis using waitLoop_skip_tick [OF 1(2) True th] by simp
  qed
qed


lemma retryNotes_sleeps [simp]: "filter isRetryNote (replicate k (Sleep n)) = []"
  by (induction k) (simp_all add: isRetryNote_def)


lemma waitForAnyUsers_no_error:
  "page s \<Longrightarrow> \<exists>b. fst (waitForAnyUsers view mw opts s) = Inr b"
  by (simp add: waitForAnyUsers_def waitLoop_no_error)





lemma retryNotes_consoleLog [simp]:
  "retryNotes (consoleLog (RetryNote a r) s) = retryNotes s @ [Log (RetryNote a r)]"
  by (simp add: retryNotes_def isRetryNote_def)


lemma advanceSimple_fields [simp]:
  "page (advanceSimple view s) = page s"
  "userIds (advanceSimple view s) = userIds s"
  "clicks (advanceSimple view s) = Suc (clicks s)"
  "pageRounds (advanceSimple view s) = pageRounds s"
  by (simp_all add: advanceSimple_def)

lemma advanceSimple_clock: "clock s \<le> clock (advanceSimple view s)"
  unfolding advanceSimple_def
  using delay_clock [of "waitForLoadState view (click NextButton s)" view 1000 2000]
    waitForLoadState_clock [of "click NextButton s" view]
  by simp

lemma collectLoopSimple_stop:
  "\<not> cp \<le> m \<Longrightarrow> collectLoopSimple cfg view m cp s = (Inr (userIds s), s)"
  by (subst collectLoopSimple.simps) simp

lemma collectLoopSimple_throw:
  "cp \<le> m \<Longrightarrow> extractUserIds view (consoleLog (PageStart cp) s) = Inl e \<Longrightarrow>
   collectLoopSimple cfg view m cp s = (Inl e, consoleLog (PageStart cp) s)"
  by (subst collectLoopSimple.simps) (simp add: Let_def)

lemma collectLoopSimple_step:
  "cp \<le> m \<Longrightarrow> extractUserIds view (consoleLog (PageStart cp) s) = Inr b \<Longrightarrow>
   collectLoopSimple cfg view m cp s =
     (if simpleNextFound (observe view (afterExtract cp b s)) then
        (if simpleNextDisabled (observe view (afterExtract cp b s))
         then (Inr (userIds (afterExtract cp b s)), consoleLog LastPage (afterExtract cp b s))
         else if \<not> simpleNextClickable (observe view (afterExtract cp b s))
         then (Inl TimeoutError, afterExtract cp b s)
         else if int (idleAfter (observe view (click NextButton (afterExtract cp b s)))) > 30000
         then (Inl TimeoutError, (click NextButton (afterExtract cp b s))
                 \<lparr>clock := clock (click NextButton (afterExtract cp b s)) + 30000\<rparr>)
         else collectLoopSimple cfg view m (cp + 1) (advanceSimple view (afterExtract cp b s)))
      else (Inr (userIds (afterExtract cp b s)), consoleLog NoNextButton (afterExtract cp b s)))"
  by (subst collectLoopSimple.simps)
     (simp add: Let_def afterExtract_def advanceSimple_def)



lemma collectLoopSimple_provenance:
  assumes "\<forall>i\<in>set (userIds s). Q i"
    and "\<forall>c t raw i. clicks s \<le> c \<and> clock s \<le> t \<and> foundIds (view c t) = Some raw \<and> i \<in> set raw \<longrightarrow> Q i"
    and "fst (collectLoopSimple cfg view m cp s) = Inr ids"
  shows "\<forall>i\<in>set ids. Q i"
  using assms
proof (induction "nat (m + 1 - cp)" arbitrary: cp s)
  case 0
  then have "\<not> cp \<le> m" by simp
  with 0 show ?case by (simp add: collectLoopSimple_stop)
next
  case (Suc n)
  then have le: "cp \<le> m" and n: "n = nat (m + 1 - (cp + 1))" by simp_all
  show ?case
  proof (cases "extractUserIds view (consoleLog (PageStart cp) s)")
    case (Inl e)
    with le Suc.prems(3) show ?thesis by (simp add: collectLoopSimple_throw)
  next
    case (Inr b)
    define s3 where "s3 = afterExtract cp b s"
    from Inr obtain raw where raw: "foundIds (view (clicks s) (clock s)) = Some raw" "set b = set raw"
      using extractUserIds_Inr [of view s b] by auto
    have Qb: "\<forall>i\<in>set b. Q i"
      using Suc.prems(2) raw by blast
    have Q3: "\<forall>i\<in>set (userIds s3). Q i"
      using Qb Suc.prems(1) by (auto simp: s3_def)
    note step = collectLoopSimple_step [OF le Inr, where cfg = cfg, folded s3_def]
    show ?thesis
    proof (cases "fst (collectLoopSimple cfg view m cp s) = fst (collectLoopSimple cfg view m (cp + 1) (advanceSimple view s3))")
      case True
      have a1: "\<forall>i\<in>set (userIds (advanceSimple view s3)). Q i"
        using Q3 by simp
      have "clicks s \<le> clicks (advanceSimple view s3)" "clock s \<le> clock (advanceSimple view s3)"
        using advanceSimple_clock [of s3 view] by (simp_all add: s3_def)
      then have a2: "\<forall>c t raw i. clicks (advanceSimple view s3) \<le> c \<and> clock (advanceSimple view s3) \<le> t
          \<and> foundIds (view c t) = Some raw \<and> i \<in> set raw \<longrightarrow> Q i"
        using Suc.prems(2) by (meson order_trans)
      have a3: "fst (collectLoopSimple cfg view m (cp + 1) (advanceSimple view s3)) = Inr ids"
        using True Suc.prems(3) by simp
      from Suc.hyps(1) [OF n a1 a2 a3] show ?thesis .
    next
      case False
      then have "ids = userIds s3"
        using step Suc.prems(3) by (auto split: if_splits)
      with Q3 show ?thesis by simp
    qed
  qed
qed




section \<open>The page ceiling of collectAllContactIds\<close>



section \<open>The accumulator of collectAllContactIds\<close>

text \<open>
  C3. \<open>collectAllContactIds\<close> clears \<open>this.userIds\<close> before it extracts anything: what
  a call returns does not depend on what the accumulator held before, and every
  identifier it returns was found on the page at some moment of this call (not earlier
  than its start, and after at least as many clicks); \<open>writeIdsFile\<close> writes those
  identifiers and no others. The same holds for the older \<open>collectAllContactIds\<close>.
\<close>

theorem collectAllContactIds_fresh_accumulator:
  "fst (collectAllContactIds cfg view (s\<lparr>userIds := old\<rparr>))
     = fst (collectAllContactIds cfg view (s\<lparr>userIds := []\<rparr>))
   \<and> (\<forall>ids. fst (collectAllContactIds cfg view (s\<lparr>userIds := old\<rparr>)) = Inr ids \<longrightarrow>
         (\<forall>i\<in>set ids. \<exists>c t raw. clicks s \<le> c \<and> clock s \<le> t
             \<and> foundIds (view c t) = Some raw \<and> i \<in> set raw)
         \<and> (\<forall>nfkd d r label. snd (writeIdsFile nfkd d r ids label) = IdLines (arrayFromSet ids))
         \<and> set (arrayFromSet ids) = set ids)
   \<and> fst (collectAllContactIdsSimple cfg view (s\<lparr>userIds := old\<rparr>))
     = fst (collectAllContactIdsSimple cfg view (s\<lparr>userIds := []\<rparr>))
   \<and> (\<forall>ids. fst (collectAllContactIdsSimple cfg view (s\<lparr>userIds := old\<rparr>)) = Inr ids \<longrightarrow>
         (\<forall>i\<in>set ids. \<exists>c t raw. clicks s \<le> c \<and> clock s \<le> t
             \<and> foundIds (view c t) = Some raw \<and> i \<in> set raw))"
proof -
  let ?Q = "\<lambda>i. \<exists>c t raw. clicks s \<le> c \<and> clock s \<le> t \<and> foundIds (view c t) = Some raw \<and> i \<in> set raw"
  have e1: "fst (collectAllContactIds cfg view (s\<lparr>userIds := old\<rparr>))
     = fst (collectAllContactIds cfg view (s\<lparr>userIds := []\<rparr>))"
    by (simp add: collectAllContactIds_def)
  have e2: "fst (collectAllContactIdsSimple cfg view (s\<lparr>userIds := old\<rparr>))
     = fst (collectAllContactIdsSimple cfg view (s\<lparr>userIds := []\<rparr>))"
    by (simp add: collectAllContactIdsSimple_def)
  have p1: "\<forall>i\<in>set ids. ?Q i"
    if h: "fst (collectAllContactIds cfg view (s\<lparr>userIds := old\<rparr>)) = Inr ids" for ids
  proof -
    define s1 where "s1 = waitForLoadState view (s\<lparr>userIds := []\<rparr>)"
    obtain r2 s2 where w: "waitForAnyUsers view 20000 None s1 = (r2, s2)"
      by (cases "waitForAnyUsers view 20000 None s1")
    note wf = waitForAnyUsers_frame [OF w]
    define s3 where "s3 = (if r2 = Inr False then waitForTimeout 1500 (consoleLog NotReadyPause s2) else s2)"
    have u3: "userIds s3 = []" "clicks s3 = clicks s" "clock s \<le> clock s3"
      using wf waitForLoadState_clock [of "s\<lparr>userIds := []\<rparr>" view]
      by (auto simp: s3_def s1_def)
    have run: "fst (collectLoop cfg view (maxPagesOf cfg) 1 s3) = Inr ids"
      using h w by (auto simp: collectAllContactIds_def Let_def s1_def s3_def split: sum.splits if_splits)
    have a1: "\<forall>i\<in>set (userIds s3). ?Q i" using u3 by simp
    have a2: "\<forall>c t raw i. clicks s3 \<le> c \<and> clock s3 \<le> t \<and> foundIds (view c t) = Some raw \<and> i \<in> set raw \<longrightarrow> ?Q i"
      using u3 by (metis order_trans)
    from collectLoop_provenance [where Q = ?Q, OF a1 a2 run] show ?thesis .
  qed
  have p2: "\<forall>i\<in>set ids. ?Q i"
    if h: "fst (collectAllContactIdsSimple cfg view (s\<lparr>userIds := old\<rparr>)) = Inr ids" for ids
  proof -
    define s3 where "s3 = s\<lparr>userIds := []\<rparr>"
    have run: "fst (collectLoopSimple cfg view (maxPagesOf cfg) 1 s3) = Inr ids"
      using h by (auto simp: collectAllContactIdsSimple_def s3_def split: if_splits)
    have a1: "\<forall>i\<in>set (userIds s3). ?Q i" by (simp add: s3_def)
    have a2: "\<forall>c t raw i. clicks s3 \<le> c \<and> clock s3 \<le> t \<and> foundIds (view c t) = Some raw \<and> i \<in> set raw \<longrightarrow> ?Q i"
      by (auto simp: s3_def)
    from collectLoopSimple_provenance [where Q = ?Q, OF a1 a2 run] show ?thesis .
  qed
  have wr: "snd (writeIdsFile nfkd d r ids label) = IdLines (arrayFromSet ids)" for nfkd d r ids label
    by (simp add: writeIdsFile_def Let_def)
  from e1 e2 p1 p2 wr show ?thesis by simp
qed

theorem collectAllContactIds_fresh_accumulator_witness:
  "userIds betaStart = [''1'', ''2'', ''3'']
   \<and> fst (collectAllContactIds plainConfig twoTargets betaStart) = Inr [''9'']
   \<and> (\<exists>c t raw. clicks betaStart \<le> c \<and> clock betaStart \<le> t
          \<and> foundIds (twoTargets c t) = Some raw \<and> ''9'' \<in> set raw)
   \<and> fst (collectAllContactIds plainConfig twoTargets freshState) = Inr [''1'', ''2'', ''3'']"
proof -
  have b: "betaStart\<lparr>userIds := [''1'', ''2'', ''3'']\<rparr> = betaStart"
    by (simp add: betaStart_def)
  have e1: "fst (collectAllContactIds plainConfig twoTargets betaStart) = Inr [''9'']"
    by code_simp
  have e2: "fst (collectAllContactIds plainConfig twoTargets freshState) = Inr [''1'', ''2'', ''3'']"
    by code_simp
  have e3: "userIds betaStart = [''1'', ''2'', ''3'']"
    by (simp add: betaStart_def)
  from collectAllContactIds_fresh_accumulator
    [where cfg = plainConfig and view = twoTargets and s = betaStart and old = "[''1'', ''2'', ''3'']"]
    b e1 e2 e3
  show ?thesis by simp
qed

section \<open>The stability window of waitForAnyUsers\<close>

text \<open>
  C1, as the specification states it, fails: on the probe sequence
  \<open>0, 0, 3, 3, 3, 5, 5, 5, 5\<close>, sampled once per tick of 500 ms with a window of 3
  ticks, a least count of 1 and the shortcut off, the call does not return at the third
  sample of 3 (the sample at 4 ticks): it returns \<open>true\<close> at the sample at 8 ticks, whose
  value is 5.
\<close>

theorem waitForAnyUsers_third_sample_counterexample:
  "fst (waitForAnyUsers probeView 20000 (Some strictOpts) freshState) = Inr True
   \<and> clock (snd (waitForAnyUsers probeView 20000 (Some strictOpts) freshState)) = 8 * 500
   \<and> probeSequence ! 4 = 3 \<and> probeSequence ! 8 = 5
   \<and> clock (snd (waitForAnyUsers probeView 20000 (Some strictOpts) freshState)) \<noteq> 4 * 500"
  by code_simp

text \<open>
  C1, amended. The window is measured on the clock from the sample at which the value
  last changed: at the third sample of 3 only two ticks have passed. On the sequence of
  the specification the call returns \<open>true\<close> at the ninth sample, the fourth
  consecutive 5, the first sample whose value is at least 1 and has not changed for 3
  ticks; on \<open>3, 3, 3, 0, 3, 3, 3, 3\<close> the fall to 0 and the return to 3 each restart
  the count, and the call returns at the eighth sample. In general a sample whose count
  differs from the previous one, up or down, sets \<open>lastCount\<close> to it and
  \<open>lastChangeTs\<close> to the time of the sample; a sample with the same count leaves both,
  and the sample succeeds when the count is at least the required one and the window
  has passed since \<open>lastChangeTs\<close>.
\<close>

theorem waitForAnyUsers_stability_window:
  assumes "page s" and "foundIds (observe view s) = Some raw"
    and "count = int (length (arrayFromSet raw))"
  shows "waitForAnyUsers probeView 20000 (Some strictOpts) freshState
       = (Inr True, freshState\<lparr>clock := 8 * 500, trace := replicate 8 (Sleep 500)\<rparr>)
    \<and> waitForAnyUsers regressView 20000 (Some strictOpts) freshState
       = (Inr True, freshState\<lparr>clock := 7 * 500, trace := replicate 7 (Sleep 500)\<rparr>)
    \<and> (count \<noteq> lastCount p \<longrightarrow>
          snd (pollOnce view False minStable minCount p s) = \<lparr>lastCount = count, lastChangeTs = clock s\<rparr>
          \<and> (fst (pollOnce view False minStable minCount p s) \<longleftrightarrow> minCount \<le> count \<and> minStable \<le> 0))
    \<and> (count = lastCount p \<longrightarrow>
          snd (pollOnce view False minStable minCount p s) = p
          \<and> (fst (pollOnce view False minStable minCount p s)
               \<longleftrightarrow> minCount \<le> count \<and> minStable \<le> clock s - lastChangeTs p))"
proof -
  have r1: "waitForAnyUsers probeView 20000 (Some strictOpts) freshState
       = (Inr True, freshState\<lparr>clock := 8 * 500, trace := replicate 8 (Sleep 500)\<rparr>)"
    by code_simp
  have r2: "waitForAnyUsers regressView 20000 (Some strictOpts) freshState
       = (Inr True, freshState\<lparr>clock := 7 * 500, trace := replicate 7 (Sleep 500)\<rparr>)"
    by code_simp
  have p: "pollOnce view False minStable minCount p s =
      (let p' = (if count \<noteq> lastCount p then \<lparr>lastCount = count, lastChangeTs = clock s\<rparr> else p)
       in (count \<ge> minCount \<and> clock s - lastChangeTs p' \<ge> minStable, p'))"
    using assms by (simp add: pollOnce_def extractUserIds_def Let_def)
  from r1 r2 show ?thesis by (simp add: p Let_def)
qed

theorem waitForAnyUsers_stability_window_witness:
  "page freshState \<and> foundIds (observe probeView freshState) = Some []
   \<and> (0::int) \<noteq> lastCount \<lparr>lastCount = - 1, lastChangeTs = 0\<rparr>
   \<and> snd (pollOnce probeView False 1500 1 \<lparr>lastCount = - 1, lastChangeTs = 0\<rparr> freshState)
       = \<lparr>lastCount = 0, lastChangeTs = clock freshState\<rparr>
   \<and> \<not> fst (pollOnce probeView False 1500 1 \<lparr>lastCount = - 1, lastChangeTs = 0\<rparr> freshState)
   \<and> waitForAnyUsers probeView 20000 (Some strictOpts) freshState
       = (Inr True, freshState\<lparr>clock := 8 * 500, trace := replicate 8 (Sleep 500)\<rparr>)"
proof -
  have h1: "page freshState" by (simp add: freshState_def)
  have h2: "foundIds (observe probeView freshState) = Some []"
    by (simp add: observe_def probeView_def freshState_def quietPage_def probeSequence_def idsOfCount_def)
  have h3: "(0::int) = int (length (arrayFromSet ([]::string list)))"
    by (simp add: arrayFromSet_def addAll_def)
  from waitForAnyUsers_stability_window [OF h1 h2 h3, of "\<lparr>lastCount = - 1, lastChangeTs = 0\<rparr>" 1500 1] h1 h2
  show ?thesis by simp
qed

section \<open>A probe that throws\<close>

text \<open>
  C8. With \<open>this.page\<close> set, \<open>waitForAnyUsers\<close> never ends with an error. A sample that
  throws changes neither loop variable and is followed by the wait of 500 ms and the
  next round; and when every sample throws the call returns \<open>false\<close>, not before
  \<open>maxWaitMs\<close> has passed.
\<close>

theorem waitForAnyUsers_probe_throw_nonfatal:
  assumes "page s"
  shows "(\<exists>b. fst (waitForAnyUsers view maxWaitMs opts s) = Inr b)
    \<and> (clock s - start < maxWaitMs \<and> probeThrows sc (observe view s) \<longrightarrow>
          pollOnce view sc ms mc p s = (False, p)
          \<and> waitLoop view start maxWaitMs sc ms mc p s
              = waitLoop view start maxWaitMs sc ms mc p (waitForTimeout 500 s))
    \<and> ((\<forall>c t. probeThrows (shortcutOf opts) (view c t)) \<longrightarrow>
          fst (waitForAnyUsers view maxWaitMs opts s) = Inr False
          \<and> clock s + maxWaitMs \<le> clock (snd (waitForAnyUsers view maxWaitMs opts s)))"
proof -
  have a: "\<exists>b. fst (waitForAnyUsers view maxWaitMs opts s) = Inr b"
    using assms by (rule waitForAnyUsers_no_error)
  have b: "pollOnce view sc ms mc p s = (False, p)
          \<and> waitLoop view start maxWaitMs sc ms mc p s
              = waitLoop view start maxWaitMs sc ms mc p (waitForTimeout 500 s)"
    if "clock s - start < maxWaitMs \<and> probeThrows sc (observe view s)"
    using that assms by (simp add: pollOnce_throw waitLoop_skip_tick)
  have c: "fst (waitForAnyUsers view maxWaitMs opts s) = Inr False
          \<and> clock s + maxWaitMs \<le> clock (snd (waitForAnyUsers view maxWaitMs opts s))"
    if "\<forall>c t. probeThrows (shortcutOf opts) (view c t)"
    using waitLoop_all_throw [OF assms that] by (simp add: waitForAnyUsers_def)
  from a b c show ?thesis by blast
qed

theorem waitForAnyUsers_probe_throw_nonfatal_witness:
  "page freshState \<and> clock freshState - 0 < 20000
   \<and> probeThrows False (observe flakyView freshState)
   \<and> waitLoop flakyView 0 20000 False 1500 1 \<lparr>lastCount = - 1, lastChangeTs = 0\<rparr> freshState
       = waitLoop flakyView 0 20000 False 1500 1 \<lparr>lastCount = - 1, lastChangeTs = 0\<rparr>
           (waitForTimeout 500 freshState)
   \<and> fst (waitForAnyUsers flakyView 20000 (Some strictOpts) freshState) = Inr True
   \<and> (\<forall>c t. probeThrows (shortcutOf (Some strictOpts)) (quietPage\<lparr>foundIds := None\<rparr>))
   \<and> fst (waitForAnyUsers (\<lambda>c t. quietPage\<lparr>foundIds := None\<rparr>) 2000 (Some strictOpts) freshState) = Inr False
   \<and> clock freshState + 2000 \<le> clock (snd (waitForAnyUsers (\<lambda>c t. quietPage\<lparr>foundIds := None\<rparr>) 2000 (Some strictOpts) freshState))"
proof -
  have h1: "page freshState" by (simp add: freshState_def)
  have h2: "clock freshState - 0 < 20000 \<and> probeThrows False (observe flakyView freshState)"
    by (simp add: freshState_def probeThrows_def observe_def flakyView_def quietPage_def)
  have h3: "\<forall>c t. probeThrows (shortcutOf (Some strictOpts)) ((\<lambda>c t. quietPage\<lparr>foundIds := None\<rparr>) c t)"
    by (simp add: probeThrows_def shortcutOf_def strictOpts_def)
  have e: "fst (waitForAnyUsers flakyView 20000 (Some strictOpts) freshState) = Inr True"
    by code_simp
  from waitForAnyUsers_probe_throw_nonfatal [OF h1, where view = flakyView and start = 0
      and maxWaitMs = 20000 and sc = False and ms = 1500 and mc = 1
      and p = "\<lparr>lastCount = - 1, lastChangeTs = 0\<rparr>" and opts = "Some strictOpts"]
    waitForAnyUsers_probe_throw_nonfatal [OF h1, where view = "\<lambda>c t. quietPage\<lparr>foundIds := None\<rparr>"
      and maxWaitMs = 2000 and opts = "Some strictOpts" and start = 0 and sc = False and ms = 0 and mc = 0
      and p = "\<lparr>lastCount = - 1, lastChangeTs = 0\<rparr>"]
    h1 h2 h3 e
  show ?thesis by simp
qed

section \<open>The retry controller\<close>



section \<open>Seeking the next page\<close>

text \<open>
  C7, as the specification states it, fails: a next button that is entirely absent at a
  poll does not end the traversal. Below, the button is not in the document at the first
  poll, yet \<open>waitForNextPageButton\<close> returns its locator (it is there, enabled, at the
  second poll) and the traversal goes on to a second page.
\<close>

theorem waitForNextPageButton_absent_counterexample:
  "anyNext (observe lateView freshState) = 0 \<and> enabledNext (observe lateView freshState) = 0
   \<and> fst (waitForNextPageButton lateView 4000 freshState) = Inr (Some EnabledNextFirst)
   \<and> pageRounds (snd (collectAllContactIds plainConfig lateView freshState)) = 2"
  by code_simp

text \<open>
  C7, amended. With \<open>this.page\<close> set, \<open>waitForNextPageButton\<close> returns the locator of
  the enabled button exactly when some poll, made every 500 ms before the timeout,
  finds a button that is present and enabled, and \<open>null\<close> otherwise. A button that is
  present but disabled and a button that is absent are treated alike, both polled again
  until the timeout: the answers of \<open>any.count()\<close> do not change the result. When no
  poll within the timeout finds an enabled button, the loop of \<open>collectAllContactIds\<close>
  ends after the current page and returns the accumulated identifiers.
\<close>

theorem waitForNextPageButton_outcomes:
  assumes "page s"
  shows "(fst (waitForNextPageButton view timeoutMs s) = Inr (Some EnabledNextFirst) \<longleftrightarrow>
            (\<exists>k. 500 * int k < timeoutMs \<and> enabledNext (view (clicks s) (clock s + 500 * int k)) \<noteq> 0))
    \<and> (fst (waitForNextPageButton view timeoutMs s) = Inr None \<longleftrightarrow>
            \<not> (\<exists>k. 500 * int k < timeoutMs \<and> enabledNext (view (clicks s) (clock s + 500 * int k)) \<noteq> 0))
    \<and> ((\<forall>c t. view' c t = (view c t)\<lparr>anyNext := a c t\<rparr>) \<longrightarrow>
            waitForNextPageButton view' timeoutMs s = waitForNextPageButton view timeoutMs s)
    \<and> (cp \<le> m \<and> extractUserIds view s = Inr b
          \<and> \<not> (\<exists>k. 500 * int k < nextEnableWaitOf cfg
                  \<and> enabledNext (view (clicks s) (clock s + 500 * int k)) \<noteq> 0) \<longrightarrow>
            fst (collectLoop cfg view m cp s) = Inr (addAll b (userIds s))
            \<and> pageRounds (snd (collectLoop cfg view m cp s)) = Suc (pageRounds s))"
proof -
  let ?E = "\<lambda>tm. \<exists>k. 500 * int k < tm \<and> enabledNext (view (clicks s) (clock s + 500 * int k)) \<noteq> 0"
  have ch: "fst (nextLoop view (clock s) tm s) = Some EnabledNextFirst \<longleftrightarrow> ?E tm" for tm
    using nextLoop_char [of view "clock s" tm s] by simp
  have fw: "fst (waitForNextPageButton view timeoutMs s) = Inr (fst (nextLoop view (clock s) timeoutMs s))"
    using assms by (cases "nextLoop view (clock s) timeoutMs s") (simp add: waitForNextPageButton_def)
  have c1: "fst (waitForNextPageButton view timeoutMs s) = Inr (Some EnabledNextFirst) \<longleftrightarrow> ?E timeoutMs"
    using ch [of timeoutMs] by (simp add: fw)
  have c2: "fst (waitForNextPageButton view timeoutMs s) = Inr None \<longleftrightarrow> \<not> ?E timeoutMs"
    using ch [of timeoutMs] nextLoop_result [of view "clock s" timeoutMs s]
    by (auto simp: fw)
  have c3: "waitForNextPageButton view' timeoutMs s = waitForNextPageButton view timeoutMs s"
    if "\<forall>c t. view' c t = (view c t)\<lparr>anyNext := a c t\<rparr>"
    using nextLoop_anyNext_irrelevant [OF that] by (simp add: waitForNextPageButton_def)
  have c4: "fst (collectLoop cfg view m cp s) = Inr (addAll b (userIds s))
            \<and> pageRounds (snd (collectLoop cfg view m cp s)) = Suc (pageRounds s)"
    if h: "cp \<le> m \<and> extractUserIds view s = Inr b \<and> \<not> ?E (nextEnableWaitOf cfg)"
  proof -
    define s3 where "s3 = afterExtract cp b s"
    obtain r y where w: "waitForNextPageButton view (nextEnableWaitOf cfg) s3 = (r, y)"
      by (cases "waitForNextPageButton view (nextEnableWaitOf cfg) s3")
    note fr = waitForNextPageButton_frame [OF w]
    have "fst (nextLoop view (clock s3) (nextEnableWaitOf cfg) s3) \<noteq> Some EnabledNextFirst"
      using nextLoop_char [of view "clock s3" "nextEnableWaitOf cfg" s3] h by (simp add: s3_def)
    then have "fst (nextLoop view (clock s3) (nextEnableWaitOf cfg) s3) = None"
      using nextLoop_result [of view "clock s3" "nextEnableWaitOf cfg" s3] by simp
    then have r: "r = Inr None"
      using w assms
      by (cases "nextLoop view (clock s3) (nextEnableWaitOf cfg) s3")
         (auto simp: waitForNextPageButton_def s3_def)
    have ex: "extractUserIds view (consoleLog (PageStart cp) s) = Inr b" using h by simp
    from collectLoop_step [OF _ ex w [unfolded s3_def], of m] h r fr
    show ?thesis by (simp add: s3_def)
  qed
  from c1 c2 c3 c4 show ?thesis by blast
qed

theorem waitForNextPageButton_outcomes_witness:
  "page freshState
   \<and> (\<exists>k. 500 * int k < 4000 \<and> enabledNext (lateView (clicks freshState) (clock freshState + 500 * int k)) \<noteq> 0)
   \<and> fst (waitForNextPageButton lateView 4000 freshState) = Inr (Some EnabledNextFirst)
   \<and> (1::int) \<le> 10000 \<and> extractUserIds emptyView freshState = Inr []
   \<and> \<not> (\<exists>k. 500 * int k < nextEnableWaitOf plainConfig
            \<and> enabledNext (emptyView (clicks freshState) (clock freshState + 500 * int k)) \<noteq> 0)
   \<and> fst (collectLoop plainConfig emptyView 10000 1 freshState) = Inr []
   \<and> pageRounds (snd (collectLoop plainConfig emptyView 10000 1 freshState)) = 1
   \<and> waitForNextPageButton (\<lambda>c t. (lateView c t)\<lparr>anyNext := 1\<rparr>) 4000 freshState
       = waitForNextPageButton lateView 4000 freshState"
proof -
  have h1: "page freshState" by (simp add: freshState_def)
  have "500 * int 1 < 4000 \<and> enabledNext (lateView (clicks freshState) (clock freshState + 500 * int 1)) \<noteq> 0"
    by (simp add: lateView_def freshState_def quietPage_def)
  then have h2: "\<exists>k. 500 * int k < 4000
      \<and> enabledNext (lateView (clicks freshState) (clock freshState + 500 * int k)) \<noteq> 0"
    by (rule exI)
  have h3: "extractUserIds emptyView freshState = Inr []"
    by (simp add: extractUserIds_def freshState_def observe_def emptyView_def quietPage_def
        arrayFromSet_def addAll_def)
  have h4: "\<not> (\<exists>k. 500 * int k < nextEnableWaitOf plainConfig
            \<and> enabledNext (emptyView (clicks freshState) (clock freshState + 500 * int k)) \<noteq> 0)"
    by (simp add: emptyView_def quietPage_def)
  have h5: "\<forall>c t. (\<lambda>c t. (lateView c t)\<lparr>anyNext := 1\<rparr>) c t = (lateView c t)\<lparr>anyNext := (\<lambda>c t. 1) c t\<rparr>"
    by simp
  have h6: "pageRounds freshState = 0" "userIds freshState = []"
    by (simp_all add: pageRounds_def freshState_def)
  from waitForNextPageButton_outcomes [OF h1, where view = lateView and timeoutMs = 4000
      and view' = "\<lambda>c t. (lateView c t)\<lparr>anyNext := 1\<rparr>" and a = "\<lambda>c t. 1"
      and cp = 1 and m = 0 and b = "[]" and cfg = plainConfig]
    waitForNextPageButton_outcomes [OF h1, where view = emptyView and timeoutMs = 4000
      and view' = emptyView and a = "\<lambda>c t. 0"
      and cp = 1 and m = 10000 and b = "[]" and cfg = plainConfig]
    h1 h2 h3 h4 h5 h6
  show ?thesis by (simp add: addAll_def)
qed

end
